theory Spec2Isabelle
  imports Main
begin

section \<open>Python strings\<close>

text \<open>
  A Python \<open>str\<close> is modelled as a \<open>string\<close> whose characters are the code points
  below 256, one \<open>char\<close> per Python character, so that \<open>length\<close> is Python's
  \<open>len\<close>. The functions below are the \<open>str\<close> methods the sources call.
\<close>

definition isspace :: "char \<Rightarrow> bool" where
  \<comment> \<open>\<open>str.isspace\<close> on the code points below 256\<close>
  "isspace c = ((of_char c :: nat) \<in> set [9, 10, 11, 12, 13, 28, 29, 30, 31, 32, 133, 160])"

definition strip :: "string \<Rightarrow> string" where
  \<comment> \<open>\<open>s.strip()\<close>\<close>
  "strip s = rev (dropWhile isspace (rev (dropWhile isspace s)))"

definition isupper :: "char \<Rightarrow> bool" where
  \<comment> \<open>the code points below 256 that \<open>str.lower\<close> changes: A-Z and the Latin-1 capitals\<close>
  "isupper c = (let n = (of_char c :: nat) in
     (65 \<le> n \<and> n \<le> 90) \<or> (192 \<le> n \<and> n \<le> 222 \<and> n \<noteq> 215))"

definition lower_char :: "char \<Rightarrow> char" where
  \<comment> \<open>adding 32 to such a code point sets its bit 5, which is clear in both ranges\<close>
  "lower_char c = (if isupper c
     then (case c of Char b0 b1 b2 b3 b4 b5 b6 b7 \<Rightarrow> Char b0 b1 b2 b3 b4 True b6 b7)
     else c)"

definition lower :: "string \<Rightarrow> string" where
  \<comment> \<open>\<open>s.lower()\<close>\<close>
  "lower s = map lower_char s"

fun startswith :: "string \<Rightarrow> string \<Rightarrow> bool" where
  \<comment> \<open>\<open>s.startswith(p)\<close>\<close>
  "startswith s [] = True"
| "startswith [] (p # ps) = False"
| "startswith (c # cs) (p # ps) = (c = p \<and> startswith cs ps)"

definition endswith :: "string \<Rightarrow> string \<Rightarrow> bool" where
  \<comment> \<open>\<open>s.endswith(p)\<close>\<close>
  "endswith s p = startswith (rev s) (rev p)"

fun contains :: "string \<Rightarrow> string \<Rightarrow> bool" where
  \<comment> \<open>\<open>sub in s\<close>, written \<open>contains sub s\<close>\<close>
  "contains sub [] = (sub = [])"
| "contains sub (c # cs) = (startswith (c # cs) sub \<or> contains sub cs)"

function split_from :: "string \<Rightarrow> string \<Rightarrow> string \<Rightarrow> string list" where
  \<comment> \<open>the scan of \<open>s.split(sep)\<close>: \<open>cur\<close> is the piece read so far\<close>
  "split_from sep cur [] = [cur]"
| "split_from sep cur (c # cs) =
     (if sep \<noteq> [] \<and> startswith (c # cs) sep
      then cur # split_from sep [] (drop (length sep) (c # cs))
      else split_from sep (cur @ [c]) cs)"
  by pat_completeness auto
termination
  by (relation "measure (\<lambda>(sep, cur, s). length s)") auto

definition split :: "string \<Rightarrow> string \<Rightarrow> string list" where
  \<comment> \<open>\<open>s.split(sep)\<close> for a non-empty separator, written \<open>split sep s\<close>\<close>
  "split sep s = split_from sep [] s"

fun split_ws_from :: "string \<Rightarrow> string \<Rightarrow> string list" where
  \<comment> \<open>the scan of \<open>s.split()\<close>: runs of whitespace separate, no empty word is produced\<close>
  "split_ws_from cur [] = (if cur = [] then [] else [cur])"
| "split_ws_from cur (c # cs) =
     (if isspace c
      then (if cur = [] then split_ws_from [] cs else cur # split_ws_from [] cs)
      else split_ws_from (cur @ [c]) cs)"

definition split_ws :: "string \<Rightarrow> string list" where
  \<comment> \<open>\<open>s.split()\<close>\<close>
  "split_ws s = split_ws_from [] s"

fun join :: "string \<Rightarrow> string list \<Rightarrow> string" where
  \<comment> \<open>\<open>sep.join(xs)\<close>\<close>
  "join sep [] = []"
| "join sep [x] = x"
| "join sep (x # y # ys) = x @ sep @ join sep (y # ys)"

fun count_breaks :: "string \<Rightarrow> nat" where
  \<comment> \<open>\<open>s.count('\n\n')\<close>: the occurrences found left to right without overlap\<close>
  "count_breaks (a # b # s) =
     (if a = CHR 0x0A \<and> b = CHR 0x0A then Suc (count_breaks s) else count_breaks (b # s))"
| "count_breaks s = 0"

definition para_break :: string where
  "para_break = ''\<newline>\<newline>''"

datatype py_error =
    NameError string
  | TypeError
  | RequestException
  | HTTPError
  | AttributeError
  | CompletionError

section \<open>final.py: summarize\_news\<close>

definition valid_articles :: "string list \<Rightarrow> string list" where
  \<comment> \<open>lines 368-373: the entries longer than 50 characters once stripped, or all of them\<close>
  "valid_articles articles =
     (let valid = filter (\<lambda>article. length (strip article) > 50) articles
      in if valid = [] then articles else valid)"

definition combined_text :: "string list \<Rightarrow> string" where
  \<comment> \<open>line 382\<close>
  "combined_text valid = join ''\<newline>\<newline>---ARTICLE---\<newline>\<newline>'' valid"

definition prompt :: "string \<Rightarrow> string" where
  \<comment> \<open>lines 385-400\<close>
  "prompt combined =
     ''You are a professional news analyst. The following are excerpts from news articles about the same topic.\<newline>'' @
     ''Please create a comprehensive summary that captures all key information from these articles.\<newline>'' @
     ''\<newline>'' @
     ''Requirements for the summary:\<newline>'' @
     ''1. Length: Between 250-500 words total\<newline>'' @
     ''2. Structure: Divide the summary into exactly 3 paragraphs\<newline>'' @
     ''   - First paragraph: Introduce the main news event and key facts\<newline>'' @
     ''   - Second paragraph: Provide context, background details, and supporting information\<newline>'' @
     ''   - Third paragraph: Include reactions, implications, or future perspectives\<newline>'' @
     ''3. Style: Factual, objective, and journalistic\<newline>'' @
     ''4. Content: Integrate all important details from the articles without redundancy\<newline>'' @
     ''\<newline>'' @
     ''Articles:\<newline>'' @
     combined @ ''\<newline>'' @
     ''\<newline>'' @
     ''Begin your summary now:''"

definition alt_prompt :: "string \<Rightarrow> string" where
  \<comment> \<open>lines 416-428\<close>
  "alt_prompt combined =
     ''You are a news writer tasked with creating a comprehensive summary based on limited information.\<newline>'' @
     ''Using only the facts available in these partial article fragments, write a detailed news summary.\<newline>'' @
     ''\<newline>'' @
     ''Requirements:\<newline>'' @
     ''1. Length: Between 250-500 words total\<newline>'' @
     ''2. Structure: Exactly 3 paragraphs with clear breaks between them\<newline>'' @
     ''3. Style: Factual and journalistic\<newline>'' @
     ''4. Content: Focus only on the information that is definitely available in the fragments\<newline>'' @
     ''\<newline>'' @
     ''Article fragments:\<newline>'' @
     combined @ ''\<newline>'' @
     ''\<newline>'' @
     ''Write your 3-paragraph summary:''"

definition indicators :: "string list" where
  \<comment> \<open>line 412\<close>
  "indicators = [''missing'', ''no article'', ''couldn'' @ [CHR 0x27] @ ''t find'',
                 ''no content'', ''please provide'']"

text \<open>
  The completion service is a parameter \<open>complete\<close>: the content of the first choice of
  \<open>mistral.chat.complete\<close> for a given user message, or the exception raised by the call
  or by reading \<open>response.choices[0].message.content\<close> as a string. Both reach the same
  handler (line 457).
\<close>

definition final_completion :: "(string \<Rightarrow> py_error + string) \<Rightarrow> string \<Rightarrow> py_error + string" where
  \<comment> \<open>lines 403-436: the completion, asked again with the alternate prompt when it reports
      missing content\<close>
  "final_completion complete combined =
     (case complete (prompt combined) of
        Inl e \<Rightarrow> Inl e
      | Inr summary \<Rightarrow>
          if list_ex (\<lambda>indicator. contains indicator (lower summary)) indicators
          then complete (alt_prompt combined)
          else Inr summary)"

definition resplit :: "string list \<Rightarrow> string" where
  \<comment> \<open>lines 443-452\<close>
  "resplit sentences =
     (let third = length sentences div 3;
          para1 = join ''. '' (take third sentences) @ ''.'';
          para2 = join ''. '' (drop third (take (2 * third) sentences)) @ ''.'';
          para3 = join ''. '' (drop (2 * third) sentences);
          para3 = (if \<not> endswith para3 ''.'' then para3 @ ''.'' else para3)
      in para1 @ para_break @ para2 @ para_break @ para3)"

definition ensure_paragraphs :: "string \<Rightarrow> string" where
  \<comment> \<open>lines 439-455\<close>
  "ensure_paragraphs summary =
     (if count_breaks summary < 2
      then (let sentences = split ''. '' summary
            in if length sentences \<ge> 6 then resplit sentences else summary)
      else summary)"

definition article_sentences :: "string \<Rightarrow> string list" where
  \<comment> \<open>line 465\<close>
  "article_sentences article =
     map (\<lambda>s. strip s @ ''.'') (filter (\<lambda>s. strip s \<noteq> []) (split ''.'' article))"

definition basic_sentences :: "string list \<Rightarrow> string list" where
  \<comment> \<open>lines 462-466: up to 5 sentences from each article\<close>
  "basic_sentences valid = concat (map (\<lambda>article. take 5 (article_sentences article)) valid)"

definition basic_summary :: "string list \<Rightarrow> string" where
  \<comment> \<open>lines 460-476. Nothing in this block raises on strings, so the handler of line 477
      (the message "Error generating summary. Please try again with a different news
      topic.") is never entered.\<close>
  "basic_summary valid =
     (let sentences = basic_sentences valid
      in if sentences \<noteq> []
         then (let third = max 1 (length sentences div 3);
                   para1 = join '' '' (take third sentences);
                   para2 = join '' '' (drop third (take (2 * third) sentences));
                   para3 = join '' '' (drop (2 * third) (take (3 * third) sentences))
               in para1 @ para_break @ para2 @ para_break @ para3)
         else ''Insufficient content available to generate a summary.'')"

definition summarize_news :: "(string \<Rightarrow> py_error + string) \<Rightarrow> string list \<Rightarrow> string" where
  \<comment> \<open>lines 360-478\<close>
  "summarize_news complete articles =
     (if articles = [] then ''No valid articles found to summarize.''
      else (let valid = valid_articles articles
            in case final_completion complete (combined_text valid) of
                 Inr summary \<Rightarrow> ensure_paragraphs summary
               | Inl e \<Rightarrow> basic_summary valid))"

section \<open>agent.py: the feed cache of MistralAgent\<close>

text \<open>
  \<open>datetime.now()\<close> is a parameter of each call, counted in microseconds, so that a
  \<open>timedelta\<close> is a difference of two such numbers.
\<close>

type_synonym time = int

definition hour :: int where
  \<comment> \<open>\<open>timedelta(hours=1)\<close>\<close>
  "hour = 3600000000"

record article_ref =
  item_title :: string
  item_link :: string
  item_published :: string
  item_source :: string
  item_summary :: string

text \<open>
  An item of the cache is the dictionary of lines 49-55, with the keys "title", "link",
  "published", "source" and "summary".
\<close>

text \<open>
  What \<open>feedparser.parse\<close> returns for a URL: the feed's title and its entries, where a
  field that the feed does not carry is \<open>None\<close>. Reading a missing field as an attribute
  raises; \<open>entry.get\<close> with a default does not.
\<close>

record feed_entry =
  entry_title :: "string option"
  entry_link :: "string option"
  entry_published :: "string option"
  entry_summary :: "string option"

record feed =
  feed_title :: "string option"
  entries :: "feed_entry list"

record agent =
  news_sources :: "(string \<times> string list) list"
  news_cache :: "string \<rightharpoonup> article_ref list"
  last_fetch :: "string \<rightharpoonup> time"

definition init_agent :: agent where
  \<comment> \<open>lines 20-31\<close>
  "init_agent = \<lparr>
     news_sources = [
       (''technology'', [''https://techcrunch.com/feed/'', ''https://www.wired.com/feed/rss'']),
       (''business'', [''https://www.cnbc.com/id/10001147/device/rss/rss.html'']),
       (''politics'', [''https://rss.nytimes.com/services/xml/rss/nyt/Politics.xml'']),
       (''science'', [''https://www.science.org/rss/news_feeds/toc_science.xml'']),
       (''general'', [''https://rss.nytimes.com/services/xml/rss/nyt/HomePage.xml''])],
     news_cache = Map.empty,
     last_fetch = Map.empty \<rparr>"

definition make_entry :: "string option \<Rightarrow> feed_entry \<Rightarrow> py_error + article_ref" where
  \<comment> \<open>lines 49-55: the dictionary built for one entry, or the AttributeError of a missing
      \<open>entry.title\<close>, \<open>entry.link\<close> or \<open>feed.feed.title\<close>\<close>
  "make_entry ftitle entry =
     (case entry_title entry of
        None \<Rightarrow> Inl AttributeError
      | Some t \<Rightarrow>
          (case entry_link entry of
             None \<Rightarrow> Inl AttributeError
           | Some l \<Rightarrow>
               (case ftitle of
                  None \<Rightarrow> Inl AttributeError
                | Some src \<Rightarrow>
                    Inr \<lparr> item_title = t, item_link = l,
                          item_published = (case entry_published entry of
                                         None \<Rightarrow> ''Unknown date'' | Some d \<Rightarrow> d),
                          item_source = src,
                          item_summary = (case entry_summary entry of
                                       None \<Rightarrow> ''No summary available'' | Some x \<Rightarrow> x) \<rparr>)))"

fun read_entries :: "string option \<Rightarrow> feed_entry list \<Rightarrow> article_ref list" where
  \<comment> \<open>lines 48-57: the entries appended before the first one that raises; the handler of
      line 56 ends the loop over this source and keeps what was appended\<close>
  "read_entries ftitle [] = []"
| "read_entries ftitle (entry # rest) =
     (case make_entry ftitle entry of
        Inl e \<Rightarrow> []
      | Inr item \<Rightarrow> item # read_entries ftitle rest)"

definition fetch_source :: "(string \<Rightarrow> py_error + feed) \<Rightarrow> string \<Rightarrow> article_ref list" where
  \<comment> \<open>lines 46-57 for one source: the top 5 entries, nothing when the parse raises\<close>
  "fetch_source parse source_url =
     (case parse source_url of
        Inl e \<Rightarrow> []
      | Inr fd \<Rightarrow> read_entries (feed_title fd) (take 5 (entries fd)))"

definition sources_for :: "agent \<Rightarrow> string \<Rightarrow> string list" where
  \<comment> \<open>line 42: \<open>news_sources.get(category, news_sources["general"])\<close>; the key "general"
      is in the dictionary of line 23, which no method changes\<close>
  "sources_for s category =
     (case map_of (news_sources s) category of
        Some urls \<Rightarrow> urls
      | None \<Rightarrow> (case map_of (news_sources s) ''general'' of Some urls \<Rightarrow> urls | None \<Rightarrow> []))"

definition cache_fresh :: "agent \<Rightarrow> string \<Rightarrow> time \<Rightarrow> bool" where
  \<comment> \<open>lines 37-38: \<open>category in last_fetch and now - last_fetch[category] < 1 hour\<close>\<close>
  "cache_fresh s category now =
     (case last_fetch s category of None \<Rightarrow> False | Some t \<Rightarrow> now - t < hour)"

definition fetch_news ::
  "(string \<Rightarrow> py_error + feed) \<Rightarrow> time \<Rightarrow> agent \<Rightarrow> string \<Rightarrow> bool
     \<Rightarrow> article_ref list \<times> agent \<times> string list" where
  \<comment> \<open>lines 33-62. The result is the returned list, the agent after the call, and the
      feed URLs passed to \<open>feedparser.parse\<close> during the call, in order.\<close>
  "fetch_news parse now s category force_refresh =
     (if cache_fresh s category now \<and> \<not> force_refresh
      then ((case news_cache s category of None \<Rightarrow> [] | Some items \<Rightarrow> items), s, [])
      else (let sources = sources_for s category;
                all_entries = concat (map (fetch_source parse) sources)
            in (all_entries,
                s\<lparr> news_cache := (news_cache s)(category \<mapsto> all_entries),
                   last_fetch := (last_fetch s)(category \<mapsto> now) \<rparr>,
                sources)))"

inductive reachable :: "agent \<Rightarrow> bool" where
  \<comment> \<open>the agent states: \<open>fetch_news\<close> is the only method that assigns to the two
      dictionaries\<close>
  init: "reachable init_agent"
| step: "reachable s \<Longrightarrow> fetch_news parse now s category force_refresh = (items, s', urls)
           \<Longrightarrow> reachable s'"

section \<open>final.py: get\_news\_urls\<close>

text \<open>
  The responses of the network to the requests of one call, after the parsing done by
  the libraries: for an HTML page the \<open>href\<close> values of its \<open>a\<close> elements that have
  one, in document order; for the RSS document the text of the \<open>link\<close> child of each
  \<open>item\<close>, \<open>None\<close> for an item without one. \<open>Inl\<close> is the exception raised by the
  request, by \<open>raise_for_status\<close> where the code calls it, or by the parser.
\<close>

record web =
  google_news :: "py_error + string list"
  bing_news :: "py_error + string list"
  google_rss :: "py_error + string option list"
  google_search :: "string \<Rightarrow> py_error + string list"

definition is_http :: "string \<Rightarrow> bool" where
  \<comment> \<open>\<open>s.startswith(('http://', 'https://'))\<close>\<close>
  "is_http s = (startswith s ''http://'' \<or> startswith s ''https://'')"

definition google_links :: "string list \<Rightarrow> string list" where
  \<comment> \<open>lines 68-77\<close>
  "google_links hrefs =
     map (\<lambda>href. ''https://news.google.com'' @ drop 1 href)
       (filter (\<lambda>href. startswith href ''./articles'') hrefs)"

fun bing_links :: "string list \<Rightarrow> string list \<Rightarrow> string list" where
  \<comment> \<open>lines 92-98: the loop appends to \<open>article_links\<close> and stops at 5\<close>
  "bing_links article_links [] = article_links"
| "bing_links article_links (href # rest) =
     (if is_http href \<and> \<not> contains ''bing'' href \<and> \<not> contains ''microsoft'' href
      then (if length (article_links @ [href]) \<ge> 5 then article_links @ [href]
            else bing_links (article_links @ [href]) rest)
      else bing_links article_links rest)"

fun unique_loop :: "string list \<Rightarrow> string set \<Rightarrow> string list \<Rightarrow> string list" where
  \<comment> \<open>lines 106-111\<close>
  "unique_loop unique_links seen [] = unique_links"
| "unique_loop unique_links seen (link # rest) =
     (if link \<notin> seen
      then (if length (unique_links @ [link]) \<ge> 5 then unique_links @ [link]
            else unique_loop (unique_links @ [link]) (insert link seen) rest)
      else unique_loop unique_links seen rest)"

definition primary_links :: "web \<Rightarrow> py_error + string list" where
  \<comment> \<open>lines 55-114, the body of the outer \<open>try\<close>: its returned list, or the exception that
      enters the handler of line 116\<close>
  "primary_links w =
     (case google_news w of
        Inl e \<Rightarrow> Inl e
      | Inr hrefs \<Rightarrow>
          (let article_links = google_links hrefs
           in if length article_links < 3
              then (case bing_news w of
                      Inl e \<Rightarrow> Inl e
                    | Inr fallback_hrefs \<Rightarrow>
                        Inr (unique_loop [] {} (bing_links article_links fallback_hrefs)))
              else Inr (unique_loop [] {} article_links)))"

definition rss_links :: "string option list \<Rightarrow> string list" where
  \<comment> \<open>lines 130-134, for the items already cut to 5\<close>
  "rss_links items =
     filter is_http (map strip (concat (map (\<lambda>item. case item of None \<Rightarrow> [] | Some t \<Rightarrow> [t]) items)))"

definition strip_chars :: "string \<Rightarrow> string \<Rightarrow> string" where
  \<comment> \<open>\<open>s.strip(chars)\<close>\<close>
  "strip_chars chars s =
     rev (dropWhile (\<lambda>c. c \<in> set chars) (rev (dropWhile (\<lambda>c. c \<in> set chars) s)))"

fun search_hrefs :: "string list \<Rightarrow> string list \<Rightarrow> string list \<times> bool" where
  \<comment> \<open>lines 159-167: the list after the loop, and whether line 167 returned. An href
      that starts with the marker splits into at least two pieces.\<close>
  "search_hrefs backup_urls [] = (backup_urls, False)"
| "search_hrefs backup_urls (href # rest) =
     (if startswith href ''/url?q=''
      then (case split ''/url?q='' href of
              a # b # pieces \<Rightarrow>
                (let actual_url = hd (split ''&'' b)
                 in if is_http actual_url \<and> \<not> contains ''google'' actual_url
                    then (if length (backup_urls @ [actual_url]) \<ge> 5
                          then (backup_urls @ [actual_url], True)
                          else search_hrefs (backup_urls @ [actual_url]) rest)
                    else search_hrefs backup_urls rest)
            | _ \<Rightarrow> (backup_urls, False))
      else search_hrefs backup_urls rest)"

fun search_words :: "web \<Rightarrow> string \<Rightarrow> string list \<Rightarrow> string list \<Rightarrow> string list \<times> bool" where
  \<comment> \<open>lines 147-169: the loop over the words of one suggested source\<close>
  "search_words w query backup_urls [] = (backup_urls, False)"
| "search_words w query backup_urls (word # rest) =
     (let clean_word = strip_chars ''.,:**'' (lower word)
      in if length clean_word > 3 \<and> clean_word \<notin> set [''news'', ''the'', ''and'', ''for'']
         then (case google_search w (clean_word @ '' '' @ query @ '' news'') of
                 Inl search_error \<Rightarrow> search_words w query backup_urls rest
               | Inr hrefs \<Rightarrow>
                   (case search_hrefs backup_urls hrefs of
                      (urls, True) \<Rightarrow> (urls, True)
                    | (urls, False) \<Rightarrow> search_words w query urls rest))
         else search_words w query backup_urls rest)"

fun search_sources :: "web \<Rightarrow> string \<Rightarrow> string list \<Rightarrow> string list \<Rightarrow> string list" where
  \<comment> \<open>lines 145-171: the loop over the suggested sources, then line 171\<close>
  "search_sources w query backup_urls [] = backup_urls"
| "search_sources w query backup_urls (src # rest) =
     (case search_words w query backup_urls (split_ws src) of
        (urls, True) \<Rightarrow> urls
      | (urls, False) \<Rightarrow> search_sources w query urls rest)"

definition backup_links :: "py_error + string list \<Rightarrow> web \<Rightarrow> string \<Rightarrow> string list" where
  \<comment> \<open>lines 119-174, the handler of the outer \<open>try\<close>. The first argument is what reading
      the name \<open>sources\<close> at line 143 gives.\<close>
  "backup_links sources w query =
     (case google_rss w of
        Inl backup_error \<Rightarrow> []
      | Inr items \<Rightarrow>
          (let backup_urls = rss_links (take 5 items)
           in if backup_urls \<noteq> [] then backup_urls
              else (case sources of
                      Inl backup_error \<Rightarrow> []
                    | Inr names \<Rightarrow>
                        if names \<noteq> [] then search_sources w query backup_urls names
                        else backup_urls)))"

definition get_news_urls_in :: "py_error + string list \<Rightarrow> web \<Rightarrow> string \<Rightarrow> string list" where
  \<comment> \<open>lines 48-174, for a given reading of the name \<open>sources\<close>\<close>
  "get_news_urls_in sources w query =
     (case primary_links w of
        Inr unique_links \<Rightarrow> unique_links
      | Inl e \<Rightarrow> backup_links sources w query)"

definition module_names :: "string list" where
  \<comment> \<open>the names that final.py binds at module level (imports, assignments, functions)\<close>
  "module_names = [''os'', ''logging'', ''requests'', ''load_dotenv'', ''Mistral'',
     ''BeautifulSoup'', ''ET'', ''MISTRAL_API_KEY'', ''logger'', ''mistral'',
     ''get_news_sources'', ''get_news_urls'', ''scrape_article'', ''summarize_news'', ''main'']"

definition read_sources :: "string list \<Rightarrow> py_error + string list" where
  \<comment> \<open>Reading \<open>sources\<close> in get\_news\_urls: the function has the parameter \<open>query\<close> and
      assigns no variable of that name (line 145 binds \<open>source\<close>), so the name is looked
      up in the module, where only a module-level binding would give it a value. The
      \<open>sources\<close> of line 486 is local to \<open>main\<close>.\<close>
  "read_sources bound = (if ''sources'' \<in> set module_names then Inr bound
                         else Inl (NameError ''sources''))"

definition get_news_urls :: "web \<Rightarrow> string \<Rightarrow> string list" where
  \<comment> \<open>lines 48-174 as the module runs them; the list given to \<open>read_sources\<close> is the
      value a module-level binding would have had\<close>
  "get_news_urls w query = get_news_urls_in (read_sources []) w query"

section \<open>final.py: scrape\_article\<close>

subsection \<open>The parsed document\<close>

text \<open>
  \<open>BeautifulSoup(response.text, "html.parser")\<close> is taken as given: a document is the
  list of the top-level nodes of the parse tree. An element has its tag name (in lower
  case, as the parser gives it), its attribute dictionary and its children; a text node
  is a string that \<open>get_text\<close> yields. The functions below are the tree operations the
  code calls.
\<close>

datatype node =
    Text string
  | Elem string "(string \<times> string) list" "node list"

fun get_text :: "node \<Rightarrow> string" where
  \<comment> \<open>\<open>tag.get_text()\<close> and \<open>tag.text\<close>: the strings below the tag, concatenated\<close>
  "get_text (Text t) = t"
| "get_text (Elem name attrs kids) = concat (map get_text kids)"

fun preorder :: "node \<Rightarrow> node list" where
  \<comment> \<open>a node and everything below it, in document order\<close>
  "preorder (Text t) = [Text t]"
| "preorder (Elem name attrs kids) = Elem name attrs kids # concat (map preorder kids)"

fun children :: "node \<Rightarrow> node list" where
  "children (Text t) = []"
| "children (Elem name attrs kids) = kids"

fun tag_is :: "string \<Rightarrow> node \<Rightarrow> bool" where
  "tag_is name (Text t) = False"
| "tag_is name (Elem name' attrs kids) = (name' = name)"

fun attr :: "string \<Rightarrow> node \<Rightarrow> string option" where
  \<comment> \<open>\<open>tag.get(key)\<close>\<close>
  "attr key (Text t) = None"
| "attr key (Elem name attrs kids) = map_of attrs key"

definition find_all :: "(node \<Rightarrow> bool) \<Rightarrow> node list \<Rightarrow> node list" where
  \<comment> \<open>\<open>find_all\<close> below the given roots: the matching nodes in document order. Every
      matcher used here holds of elements only.\<close>
  "find_all matches roots = filter matches (concat (map preorder roots))"

definition find_first :: "(node \<Rightarrow> bool) \<Rightarrow> node list \<Rightarrow> node option" where
  \<comment> \<open>\<open>find\<close> below the given roots: the first match in document order, or \<open>None\<close>\<close>
  "find_first matches roots = (case find_all matches roots of [] \<Rightarrow> None | n # ns \<Rightarrow> Some n)"

definition attr_is :: "string \<Rightarrow> string \<Rightarrow> node \<Rightarrow> bool" where
  \<comment> \<open>the matcher \<open>{key: value}\<close> for a single-valued attribute\<close>
  "attr_is key v n = (attr key n = Some v)"

definition attr_test :: "string \<Rightarrow> (string \<Rightarrow> bool) \<Rightarrow> node \<Rightarrow> bool" where
  \<comment> \<open>the matcher \<open>attrs={key: f}\<close> for a single-valued attribute; the functions of lines
      271 and 280 return \<open>False\<close> on a missing attribute\<close>
  "attr_test key f n = (case attr key n of None \<Rightarrow> False | Some v \<Rightarrow> f v)"

definition class_test :: "(string \<Rightarrow> bool) \<Rightarrow> node \<Rightarrow> bool" where
  \<comment> \<open>the matcher \<open>class_=f\<close>: the class attribute is a list of names, and the test is
      tried on each name and then on the names joined with spaces\<close>
  "class_test f n =
     (case attr ''class'' n of
        None \<Rightarrow> False
      | Some v \<Rightarrow> (let names = split_ws v in list_ex f names \<or> f (join '' '' names)))"

fun decompose :: "string list \<Rightarrow> node \<Rightarrow> node" where
  \<comment> \<open>lines 264-265 below one node: every element with one of the names is removed with
      its subtree\<close>
  "decompose names (Text t) = Text t"
| "decompose names (Elem name attrs kids) =
     Elem name attrs
       (concat (map (\<lambda>k. if list_ex (\<lambda>nm. tag_is nm k) names then [] else [decompose names k]) kids))"

definition remove_unwanted :: "node list \<Rightarrow> node list" where
  \<comment> \<open>lines 264-265\<close>
  "remove_unwanted soup =
     (let names = [''script'', ''style'', ''nav'', ''footer'', ''header'', ''aside'', ''iframe'',
                   ''noscript'']
      in concat (map (\<lambda>k. if list_ex (\<lambda>nm. tag_is nm k) names then [] else [decompose names k]) soup))"

subsection \<open>The response\<close>

datatype json =
    JNull
  | JBool bool
  | JNum int
  | JStr string
  | JArr "json list"
  | JObj "(string \<times> json) list"

datatype ld_script =
    NoScript
  | BadJson
  | Parsed json

text \<open>
  A response carries its status code, the parse tree of its text, and what lines 209-213
  make of its text: no JSON-LD script found by the regular expression, a script that
  \<open>json.loads\<close> rejects, or the parsed value. The paywall test of lines 196-198 only logs.
\<close>

record response =
  status_code :: int
  json_ld :: ld_script
  soup :: "node list"

datatype py_value =
    PyStr string
  | PyList "json list"

subsection \<open>The MSN block\<close>

definition slice_5000 :: "json \<Rightarrow> py_error + py_value" where
  \<comment> \<open>\<open>v[:5000]\<close> for a value read from JSON: strings and lists can be sliced, the other
      values raise\<close>
  "slice_5000 v =
     (case v of
        JStr t \<Rightarrow> Inr (PyStr (take 5000 t))
      | JArr xs \<Rightarrow> Inr (PyList (take 5000 xs))
      | _ \<Rightarrow> Inl TypeError)"

definition msn_headline :: "node list \<Rightarrow> py_value option" where
  \<comment> \<open>lines 225-245: the value returned, or \<open>None\<close> when there is no \<open>h1\<close>\<close>
  "msn_headline sp =
     (case find_first (tag_is ''h1'') sp of
        None \<Rightarrow> None
      | Some headline \<Rightarrow>
          (let headline_text = strip (get_text headline);
               from_meta =
                 (case find_first (\<lambda>n. tag_is ''meta'' n \<and> attr_is ''name'' ''description'' n) sp of
                    None \<Rightarrow> headline_text
                  | Some meta_desc \<Rightarrow>
                      (case attr ''content'' meta_desc of
                         None \<Rightarrow> headline_text
                       | Some c \<Rightarrow> if c \<noteq> [] then headline_text @ ''. '' @ c else headline_text))
           in case find_first (\<lambda>n. tag_is ''div'' n \<and> class_test (\<lambda>x. x = ''articlecontent'') n) sp of
                None \<Rightarrow> Some (PyStr from_meta)
              | Some article_container \<Rightarrow>
                  (let paragraphs = find_all (tag_is ''p'') (children article_container);
                       article_text = join '' '' (map (\<lambda>p. strip (get_text p)) paragraphs)
                   in if article_text \<noteq> [] then Some (PyStr (headline_text @ ''. '' @ article_text))
                      else Some (PyStr from_meta))))"

definition msn_block :: "response \<Rightarrow> py_error + py_value option" where
  \<comment> \<open>lines 203-245, the body of the inner \<open>try\<close>: the value it returns, \<open>None\<close> when it
      falls through, or the exception caught at line 246\<close>
  "msn_block r =
     (case json_ld r of
        Parsed (JObj article_data) \<Rightarrow>
          (case map_of article_data ''articleBody'' of
             Some body \<Rightarrow> map_sum id Some (slice_5000 body)
           | None \<Rightarrow>
               (case map_of article_data ''description'' of
                  Some d \<Rightarrow> map_sum id Some (slice_5000 d)
                | None \<Rightarrow> Inr (msn_headline (soup r))))
      | _ \<Rightarrow> Inr (msn_headline (soup r)))"

definition site_override :: "string \<Rightarrow> response \<Rightarrow> py_value option" where
  \<comment> \<open>lines 201-247: what the MSN block returns for this URL, if it returns\<close>
  "site_override url r =
     (if contains ''msn.com'' url
      then (case msn_block r of Inr (Some v) \<Rightarrow> Some v | _ \<Rightarrow> None)
      else None)"

subsection \<open>The generic extraction\<close>

definition page_title :: "node list \<Rightarrow> string" where
  \<comment> \<open>lines 252-255\<close>
  "page_title sp = (case find_first (tag_is ''title'') sp of None \<Rightarrow> [] | Some t \<Rightarrow> strip (get_text t))"

definition page_meta_desc :: "node list \<Rightarrow> string" where
  \<comment> \<open>lines 258-261\<close>
  "page_meta_desc sp =
     (let meta_tag =
            (case find_first (\<lambda>n. tag_is ''meta'' n \<and> attr_is ''name'' ''description'' n) sp of
               Some m \<Rightarrow> Some m
             | None \<Rightarrow> find_first (\<lambda>n. tag_is ''meta'' n \<and> attr_is ''property'' ''og:description'' n) sp)
      in case meta_tag of
           None \<Rightarrow> []
         | Some m \<Rightarrow> (case attr ''content'' m of
                        None \<Rightarrow> []
                      | Some c \<Rightarrow> if c \<noteq> [] then strip c else []))"

definition has_text :: "node option \<Rightarrow> bool" where
  \<comment> \<open>\<open>article and article.text.strip()\<close>; a tag is always true, so \<open>not article\<close> is
      \<open>article is None\<close>\<close>
  "has_text article = (case article of None \<Rightarrow> False | Some a \<Rightarrow> strip (get_text a) \<noteq> [])"

definition testid_hint :: "node \<Rightarrow> bool" where
  \<comment> \<open>line 271\<close>
  "testid_hint = attr_test ''data-testid'' (\<lambda>x. x \<noteq> [] \<and> contains ''article'' (lower x))"

definition class_hint_test :: "string \<Rightarrow> node \<Rightarrow> bool" where
  \<comment> \<open>line 280\<close>
  "class_hint_test class_hint = class_test (\<lambda>x. x \<noteq> [] \<and> contains class_hint (lower x))"

definition class_hints :: "string list" where
  \<comment> \<open>line 279\<close>
  "class_hints = [''article'', ''content'', ''main'', ''story'', ''entry'', ''post'', ''text'', ''body'']"

fun class_loop :: "node list \<Rightarrow> string list \<Rightarrow> node option \<Rightarrow> node option" where
  \<comment> \<open>lines 279-282: the variable \<open>article\<close> after the loop\<close>
  "class_loop sp [] article = article"
| "class_loop sp (class_hint # rest) article =
     (let found = find_first (class_hint_test class_hint) sp
      in if has_text found then found else class_loop sp rest found)"

fun div_loop :: "node list \<Rightarrow> node option \<Rightarrow> nat \<Rightarrow> node option \<times> nat" where
  \<comment> \<open>lines 294-298: \<open>candidate\<close> and \<open>max_p_count\<close> after the loop\<close>
  "div_loop [] candidate max_p_count = (candidate, max_p_count)"
| "div_loop (d # divs) candidate max_p_count =
     (let p_count = length (find_all (tag_is ''p'') (children d))
      in if p_count > max_p_count then div_loop divs (Some d) p_count
         else div_loop divs candidate max_p_count)"

definition select_container :: "node list \<Rightarrow> node option" where
  \<comment> \<open>lines 270-301: the variable \<open>article\<close> at line 303\<close>
  "select_container sp =
     (let article = find_first testid_hint sp;
          article = (if \<not> has_text article then find_first (tag_is ''article'') sp else article);
          article = (if \<not> has_text article then class_loop sp class_hints article else article);
          article = (if \<not> has_text article then find_first (tag_is ''main'') sp else article)
      in if \<not> has_text article
         then (case div_loop (find_all (tag_is ''div'') sp) None 0 of
                 (candidate, max_p_count) \<Rightarrow> if max_p_count \<ge> 3 then candidate else article)
         else article)"

definition container_text :: "node option \<Rightarrow> string" where
  \<comment> \<open>lines 268 and 304-315\<close>
  "container_text article =
     (case article of
        None \<Rightarrow> []
      | Some a \<Rightarrow>
          if strip (get_text a) \<noteq> []
          then (let paragraphs = find_all (tag_is ''p'') (children a);
                    content_paragraphs =
                      filter (\<lambda>t. length t > 20) (map (\<lambda>p. strip (get_text p)) paragraphs)
                in if content_paragraphs \<noteq> [] then join '' '' content_paragraphs
                   else strip (get_text a))
          else [])"

definition article_text :: "node list \<Rightarrow> string" where
  \<comment> \<open>lines 268-325, on the document without the unwanted elements\<close>
  "article_text sp =
     (let t = container_text (select_container sp);
          t = (if t = []
               then join '' '' (filter (\<lambda>t. length t > 30)
                                  (map (\<lambda>p. strip (get_text p)) (find_all (tag_is ''p'') sp)))
               else t)
      in join '' '' (split_ws t))"

definition page_headings :: "node list \<Rightarrow> string list" where
  \<comment> \<open>line 336\<close>
  "page_headings sp =
     map (\<lambda>h. strip (get_text h))
       (find_all (\<lambda>n. tag_is ''h1'' n \<or> tag_is ''h2'' n \<or> tag_is ''h3'' n) sp)"

definition final_text :: "string \<Rightarrow> string \<Rightarrow> string \<Rightarrow> string \<Rightarrow> string" where
  \<comment> \<open>lines 343-352\<close>
  "final_text url title meta_desc text =
     (let text = (if text = [] \<and> (title \<noteq> [] \<or> meta_desc \<noteq> [])
                  then title @ ''. '' @ meta_desc else text)
      in if text \<noteq> [] then take 5000 text
         else ''Article from '' @ url @
              ''. Unable to extract full content due to possible paywall or site restrictions.'')"

definition generic_extract :: "string \<Rightarrow> node list \<Rightarrow> string" where
  \<comment> \<open>lines 249-352\<close>
  "generic_extract url sp0 =
     (let title = page_title sp0;
          meta_desc = page_meta_desc sp0;
          sp = remove_unwanted sp0;
          text = article_text sp
      in if length text < 100
         then (if title \<noteq> [] \<or> meta_desc \<noteq> []
               then (if title \<noteq> [] \<and> meta_desc \<noteq> [] then title @ ''. '' @ meta_desc
                     else if title \<noteq> [] then title else meta_desc)
               else (let headings = page_headings sp
                     in if headings \<noteq> [] then join '' '' headings
                        else final_text url title meta_desc text))
         else final_text url title meta_desc text)"

definition error_text :: "string \<Rightarrow> string" where
  \<comment> \<open>lines 357-358; a split always has a last and a first piece\<close>
  "error_text url =
     (let domain = hd (split ''/'' (last (split ''//'' url)))
      in ''Article from '' @ domain @ ''. Unable to extract content.'')"

definition scrape_article :: "(py_error + response) \<Rightarrow> string \<Rightarrow> py_value" where
  \<comment> \<open>lines 176-358. The first argument is what \<open>requests.get\<close> gives for the URL: the
      response, or the exception it raises, which the handler of line 354 catches.\<close>
  "scrape_article fetched url =
     (case fetched of
        Inl e \<Rightarrow> PyStr (error_text url)
      | Inr r \<Rightarrow>
          if status_code r \<noteq> 200 then PyStr []
          else (case site_override url r of
                  Some v \<Rightarrow> v
                | None \<Rightarrow> PyStr (generic_extract url (soup r))))"

subsection \<open>The order of the container candidates\<close>

definition chosen_container :: "node list \<Rightarrow> node option" where
  \<comment> \<open>the container that line 304 accepts for extraction, if any\<close>
  "chosen_container sp =
     (let article = select_container sp in if has_text article then article else None)"

definition first_with_text :: "node option list \<Rightarrow> node option" where
  \<comment> \<open>the first candidate of a list that exists and has text\<close>
  "first_with_text candidates =
     (case filter has_text candidates of [] \<Rightarrow> None | c # cs \<Rightarrow> c)"

definition most_paragraphs :: "(node \<Rightarrow> nat) \<Rightarrow> node list \<Rightarrow> node option" where
  \<comment> \<open>the first of the divs whose count is the greatest and at least 3\<close>
  "most_paragraphs count divs =
     List.find (\<lambda>d. 3 \<le> count d \<and> list_all (\<lambda>d'. count d' \<le> count d) divs) divs"

definition p_count :: "node \<Rightarrow> nat" where
  \<comment> \<open>line 295: the \<open>p\<close> elements anywhere below the div\<close>
  "p_count d = length (find_all (tag_is ''p'') (children d))"

definition p_children :: "node \<Rightarrow> nat" where
  \<comment> \<open>the children of the div that are \<open>p\<close> elements\<close>
  "p_children d = length (filter (tag_is ''p'') (children d))"

definition greatest_above :: "nat \<Rightarrow> node list \<Rightarrow> node \<Rightarrow> bool" where
  "greatest_above m ds d = (m < p_count d \<and> (\<forall>d' \<in> set ds. p_count d' \<le> p_count d))"

definition candidates_in_order :: "node list \<Rightarrow> node option list" where
  \<comment> \<open>the candidates in the order of lines 270-301\<close>
  "candidates_in_order sp =
     [find_first testid_hint sp, find_first (tag_is ''article'') sp]
     @ map (\<lambda>class_hint. find_first (class_hint_test class_hint) sp) class_hints
     @ [find_first (tag_is ''main'') sp, most_paragraphs p_count (find_all (tag_is ''div'') sp)]"

definition claimed_candidates :: "node list \<Rightarrow> node option list" where
  \<comment> \<open>the candidates as the specification lists them: (a) the article element, (b) the
      test-id hint, (c) the class hints, (d) the main element, (e) the div with the most
      paragraph children\<close>
  "claimed_candidates sp =
     [find_first (tag_is ''article'') sp, find_first testid_hint sp]
     @ map (\<lambda>class_hint. find_first (class_hint_test class_hint) sp) class_hints
     @ [find_first (tag_is ''main'') sp, most_paragraphs p_children (find_all (tag_is ''div'') sp)]"

definition order_doc :: "node list" where
  \<comment> \<open>a document with an article element before an element with a test-id hint\<close>
  "order_doc =
     [Elem ''article'' [] [Elem ''p'' [] [Text ''Text of the article element.'']],
      Elem ''div'' [(''data-testid'', ''article-body'')]
        [Elem ''p'' [] [Text ''Text of the test-id element.'']]]"

definition nested_doc :: "node list" where
  \<comment> \<open>a document whose only div has three paragraphs, none of them its child\<close>
  "nested_doc =
     [Elem ''div'' []
        [Elem ''section'' []
           [Elem ''p'' [] [Text ''One.''], Elem ''p'' [] [Text ''Two.''],
            Elem ''p'' [] [Text ''Three.'']]]]"

section \<open>Properties of summarize\_news\<close>

lemma count_breaks_Cons: "count_breaks s \<le> count_breaks (a # s)"
proof (induction s arbitrary: a rule: length_induct)
  case (1 s)
  show ?case
  proof (cases s)
    case Nil
    then show ?thesis by simp
  next
    case (Cons b t)
    show ?thesis
    proof (cases t)
      case Nil
      with Cons show ?thesis by simp
    next
      case (Cons c u)
      have "\<And>x. count_breaks u \<le> count_breaks (x # u)"
        using 1 \<open>s = b # t\<close> Cons by simp
      with \<open>s = b # t\<close> Cons show ?thesis by simp
    qed
  qed
qed

lemma count_breaks_append: "count_breaks ys \<le> count_breaks (xs @ ys)"
proof (induction xs)
  case Nil
  show ?case by simp
next
  case (Cons x xs)
  have "count_breaks (xs @ ys) \<le> count_breaks (x # xs @ ys)"
    by (rule count_breaks_Cons)
  with Cons show ?case by simp
qed

lemma count_breaks_sep:
  assumes "c \<noteq> CHR 0x0A"
  shows "Suc (count_breaks ys) \<le> count_breaks (xs @ c # para_break @ ys)"
proof -
  have "count_breaks (c # para_break @ ys) = Suc (count_breaks ys)"
    using assms by (simp add: para_break_def)
  moreover have "count_breaks (c # para_break @ ys) \<le> count_breaks (xs @ c # para_break @ ys)"
    by (rule count_breaks_append)
  ultimately show ?thesis by simp
qed

lemma resplit_breaks: "2 \<le> count_breaks (resplit sentences)"
proof -
  define third where "third = length sentences div 3"
  define q1 where "q1 = join ''. '' (take third sentences)"
  define q2 where "q2 = join ''. '' (drop third (take (2 * third) sentences))"
  define p3 where "p3 = join ''. '' (drop (2 * third) sentences)"
  define p3' where "p3' = (if \<not> endswith p3 ''.'' then p3 @ ''.'' else p3)"
  have r: "resplit sentences = q1 @ CHR ''.'' # para_break @ (q2 @ CHR ''.'' # para_break @ p3')"
    by (simp add: resplit_def Let_def third_def q1_def q2_def p3_def p3'_def)
  have "Suc (count_breaks p3') \<le> count_breaks (q2 @ CHR ''.'' # para_break @ p3')"
    by (rule count_breaks_sep) simp
  moreover have "Suc (count_breaks (q2 @ CHR ''.'' # para_break @ p3'))
      \<le> count_breaks (resplit sentences)"
    unfolding r by (rule count_breaks_sep) simp
  ultimately show ?thesis by simp
qed

lemma valid_articles_nonempty: "articles \<noteq> [] \<Longrightarrow> valid_articles articles \<noteq> []"
  by (simp add: valid_articles_def Let_def)

lemma valid_articles_idem: "valid_articles (valid_articles articles) = valid_articles articles"
  by (simp add: valid_articles_def Let_def)

lemma three_groups:
  "take t xs @ drop t (take (2 * t) xs) @ drop (2 * t) (take (3 * t) xs) = take (3 * t) xs"
proof -
  have a: "drop t (take (2 * t) xs) = take t (drop t xs)"
    by (simp add: drop_take)
  have b: "drop (2 * t) (take (3 * t) xs) = take t (drop (2 * t) xs)"
    by (simp add: drop_take)
  have c: "take (2 * t) xs = take t xs @ take t (drop t xs)"
    using take_add [of t t xs] by (simp add: mult_2)
  have d: "take (3 * t) xs = take (2 * t) xs @ take t (drop (2 * t) xs)"
    using take_add [of "2 * t" t xs] by (simp add: numeral_3_eq_3)
  show ?thesis unfolding a b by (simp add: c d)
qed

text \<open>
  C8. For a non-empty list of article texts, the batch that is summarized is the list of
  the entries whose stripped length exceeds 50 when there is such an entry, and the whole
  list otherwise; it is never empty, and the summary is computed from that batch alone.
\<close>

theorem valid_articles_batch:
  assumes "articles \<noteq> []"
  shows "valid_articles articles \<noteq> []
       \<and> ((\<exists>a \<in> set articles. 50 < length (strip a)) \<longrightarrow>
            valid_articles articles = filter (\<lambda>a. 50 < length (strip a)) articles)
       \<and> ((\<forall>a \<in> set articles. length (strip a) \<le> 50) \<longrightarrow>
            valid_articles articles = articles)
       \<and> summarize_news complete articles = summarize_news complete (valid_articles articles)
       \<and> summarize_news complete articles =
            (case final_completion complete (combined_text (valid_articles articles)) of
               Inr summary \<Rightarrow> ensure_paragraphs summary
             | Inl e \<Rightarrow> basic_summary (valid_articles articles))"
proof -
  have n: "valid_articles articles \<noteq> []"
    using assms by (rule valid_articles_nonempty)
  have k: "(\<exists>a \<in> set articles. 50 < length (strip a)) \<longrightarrow>
      valid_articles articles = filter (\<lambda>a. 50 < length (strip a)) articles"
    by (auto simp: valid_articles_def Let_def filter_empty_conv)
  have u: "(\<forall>a \<in> set articles. length (strip a) \<le> 50) \<longrightarrow> valid_articles articles = articles"
    by (auto simp: valid_articles_def Let_def filter_empty_conv)
  have s: "summarize_news complete articles = summarize_news complete (valid_articles articles)"
    using assms n by (simp add: summarize_news_def valid_articles_idem)
  have d: "summarize_news complete articles =
      (case final_completion complete (combined_text (valid_articles articles)) of
         Inr summary \<Rightarrow> ensure_paragraphs summary
       | Inl e \<Rightarrow> basic_summary (valid_articles articles))"
    using assms by (simp add: summarize_news_def Let_def)
  from n k u s d show ?thesis by blast
qed

theorem valid_articles_batch_witness:
  "valid_articles [''short'', replicate 51 CHR ''x''] = [replicate 51 CHR ''x'']
   \<and> valid_articles [''short'', ''tiny''] = [''short'', ''tiny'']"
proof -
  have s: "strip (replicate 51 CHR ''x'') = replicate 51 CHR ''x''"
    by (simp add: strip_def isspace_def eval_nat_numeral)
  have e: "\<exists>a \<in> set [''short'', replicate 51 CHR ''x'']. 50 < length (strip a)"
    by (simp add: s)
  have f: "filter (\<lambda>a. 50 < length (strip a)) [''short'', replicate 51 CHR ''x'']
      = [replicate 51 CHR ''x'']"
    by (simp add: s) (simp add: strip_def isspace_def)
  have a: "\<forall>a \<in> set [''short'', ''tiny'']. length (strip a) \<le> 50"
    by (simp add: strip_def isspace_def)
  show ?thesis
    using valid_articles_batch [of "[''short'', replicate 51 CHR ''x'']" "\<lambda>p. Inl CompletionError"]
      valid_articles_batch [of "[''short'', ''tiny'']" "\<lambda>p. Inl CompletionError"] e f a
    by simp
qed

text \<open>
  C7. When every completion call raises, summarize\_news returns without raising: the
  fixed message for an empty input, and otherwise the summary built without the service
  from the batch. That summary takes up to 5 sentences from each article of the batch and
  is the fixed "insufficient content" message when there is no sentence, and otherwise
  three groups of sentences, each joined with spaces, separated by blank lines; the
  groups are consecutive sentences from the start of the collected list.
\<close>

theorem summarize_news_completion_fails:
  assumes "\<forall>p. isl (complete p)"
  shows "summarize_news complete articles =
           (if articles = [] then ''No valid articles found to summarize.''
            else basic_summary (valid_articles articles))
       \<and> basic_sentences valid = concat (map (\<lambda>a. take 5 (article_sentences a)) valid)
       \<and> (basic_sentences valid = [] \<longrightarrow>
            basic_summary valid = ''Insufficient content available to generate a summary.'')
       \<and> (basic_sentences valid \<noteq> [] \<longrightarrow>
            (\<exists>g1 g2 g3. basic_summary valid =
                 join '' '' g1 @ ''\<newline>\<newline>'' @ join '' '' g2 @ ''\<newline>\<newline>'' @ join '' '' g3
               \<and> g1 @ g2 @ g3 =
                 take (3 * max 1 (length (basic_sentences valid) div 3)) (basic_sentences valid)))"
proof -
  have "isl (complete (prompt (combined_text (valid_articles articles))))"
    using assms by simp
  then have "isl (final_completion complete (combined_text (valid_articles articles)))"
    by (auto simp: final_completion_def isl_def)
  then have a: "summarize_news complete articles =
      (if articles = [] then ''No valid articles found to summarize.''
       else basic_summary (valid_articles articles))"
    by (auto simp: summarize_news_def isl_def)
  have b: "basic_sentences valid = concat (map (\<lambda>a. take 5 (article_sentences a)) valid)"
    by (simp add: basic_sentences_def)
  have c: "basic_sentences valid = [] \<longrightarrow>
      basic_summary valid = ''Insufficient content available to generate a summary.''"
    by (simp add: basic_summary_def)
  have d: "basic_sentences valid \<noteq> [] \<longrightarrow>
      (\<exists>g1 g2 g3. basic_summary valid =
           join '' '' g1 @ ''\<newline>\<newline>'' @ join '' '' g2 @ ''\<newline>\<newline>'' @ join '' '' g3
         \<and> g1 @ g2 @ g3 =
           take (3 * max 1 (length (basic_sentences valid) div 3)) (basic_sentences valid))"
  proof
    assume ne: "basic_sentences valid \<noteq> []"
    define ss where "ss = basic_sentences valid"
    define t where "t = max 1 (length ss div 3)"
    have "basic_summary valid =
        join '' '' (take t ss) @ ''\<newline>\<newline>'' @ join '' '' (drop t (take (2 * t) ss))
          @ ''\<newline>\<newline>'' @ join '' '' (drop (2 * t) (take (3 * t) ss))"
      using ne by (simp add: basic_summary_def Let_def ss_def t_def para_break_def)
    moreover have "take t ss @ drop t (take (2 * t) ss) @ drop (2 * t) (take (3 * t) ss)
        = take (3 * t) ss"
      by (rule three_groups)
    ultimately show "\<exists>g1 g2 g3. basic_summary valid =
           join '' '' g1 @ ''\<newline>\<newline>'' @ join '' '' g2 @ ''\<newline>\<newline>'' @ join '' '' g3
         \<and> g1 @ g2 @ g3 =
           take (3 * max 1 (length (basic_sentences valid) div 3)) (basic_sentences valid)"
      unfolding ss_def t_def by blast
  qed
  from a b c d show ?thesis by blast
qed

theorem summarize_news_completion_fails_witness:
  "summarize_news (\<lambda>p. Inl CompletionError) [''Rates rose. Shares fell'', ''Oil was flat.'']
     = ''Rates rose.\<newline>\<newline>Shares fell.\<newline>\<newline>Oil was flat.''"
proof -
  have h: "\<forall>p. isl ((\<lambda>p. Inl CompletionError :: py_error + string) p)"
    by simp
  have v: "valid_articles [''Rates rose. Shares fell'', ''Oil was flat.'']
      = [''Rates rose. Shares fell'', ''Oil was flat.'']"
    by (simp add: valid_articles_def strip_def isspace_def)
  have b: "basic_summary [''Rates rose. Shares fell'', ''Oil was flat.'']
      = ''Rates rose.\<newline>\<newline>Shares fell.\<newline>\<newline>Oil was flat.''"
    by (simp add: basic_summary_def basic_sentences_def article_sentences_def split_def
        strip_def isspace_def para_break_def)
  show ?thesis
    using summarize_news_completion_fails [OF h,
        of "[''Rates rose. Shares fell'', ''Oil was flat.'']"] v b
    by simp
qed

text \<open>
  C6, as the code has it. For a non-empty input and a completion that is returned,
  summarize\_news returns the completion unchanged when it has at least 2 paragraph
  breaks. When it has fewer, the sentences are split again into three groups only if
  splitting at ". " gives at least 6 pieces, and the result then has at least 2 paragraph
  breaks; with fewer than 6 pieces the completion is returned as it is.
\<close>

theorem summarize_news_paragraphs:
  assumes "articles \<noteq> []"
    and "final_completion complete (combined_text (valid_articles articles)) = Inr summary"
  shows "summarize_news complete articles =
           (if count_breaks summary < 2 \<and> 6 \<le> length (split ''. '' summary)
            then resplit (split ''. '' summary) else summary)
       \<and> (2 \<le> count_breaks summary \<or> 6 \<le> length (split ''. '' summary) \<longrightarrow>
            2 \<le> count_breaks (summarize_news complete articles))"
proof -
  have e: "summarize_news complete articles = ensure_paragraphs summary"
    using assms by (simp add: summarize_news_def)
  have f: "ensure_paragraphs summary =
      (if count_breaks summary < 2 \<and> 6 \<le> length (split ''. '' summary)
       then resplit (split ''. '' summary) else summary)"
    by (simp add: ensure_paragraphs_def Let_def)
  have g: "2 \<le> count_breaks summary \<or> 6 \<le> length (split ''. '' summary) \<longrightarrow>
      2 \<le> count_breaks (ensure_paragraphs summary)"
    using resplit_breaks [of "split ''. '' summary"] by (auto simp: f)
  from e f g show ?thesis by simp
qed

theorem summarize_news_paragraphs_witness:
  "summarize_news (\<lambda>p. Inr ''A. B. C. D. E. F. G'') [''a'', ''b'', ''c'']
     = ''A. B.\<newline>\<newline>C. D.\<newline>\<newline>E. F. G.''
   \<and> 2 \<le> count_breaks (summarize_news (\<lambda>p. Inr ''A. B. C. D. E. F. G'') [''a'', ''b'', ''c''])"
proof -
  have n: "[''a'', ''b'', ''c''] \<noteq> []"
    by simp
  have c: "final_completion (\<lambda>p. Inr ''A. B. C. D. E. F. G'')
      (combined_text (valid_articles [''a'', ''b'', ''c''])) = Inr ''A. B. C. D. E. F. G''"
    by (simp add: final_completion_def indicators_def lower_def lower_char_def isupper_def)
  have s: "split ''. '' ''A. B. C. D. E. F. G'' = [''A'', ''B'', ''C'', ''D'', ''E'', ''F'', ''G'']"
    by (simp add: split_def)
  have r: "resplit [''A'', ''B'', ''C'', ''D'', ''E'', ''F'', ''G'']
      = ''A. B.\<newline>\<newline>C. D.\<newline>\<newline>E. F. G.''"
    by (simp add: resplit_def endswith_def para_break_def)
  show ?thesis
    using summarize_news_paragraphs [OF n c] s r by simp
qed

theorem summarize_news_paragraphs_counterexample:
  "summarize_news (\<lambda>p. Inr ''Markets rose today.'')
       [''Stocks rallied.'', ''Bonds fell.'', ''Oil was flat.''] = ''Markets rose today.''
   \<and> count_breaks (summarize_news (\<lambda>p. Inr ''Markets rose today.'')
       [''Stocks rallied.'', ''Bonds fell.'', ''Oil was flat.'']) = 0"
proof -
  have "summarize_news (\<lambda>p. Inr ''Markets rose today.'')
       [''Stocks rallied.'', ''Bonds fell.'', ''Oil was flat.''] = ''Markets rose today.''"
    by (simp add: summarize_news_def final_completion_def indicators_def lower_def
        lower_char_def isupper_def ensure_paragraphs_def split_def)
  then show ?thesis by simp
qed

section \<open>Properties of the feed cache\<close>

lemma fetch_news_hit:
  assumes "cache_fresh s c now"
  shows "fetch_news parse now s c False =
    ((case news_cache s c of None \<Rightarrow> [] | Some items \<Rightarrow> items), s, [])"
  using assms by (simp add: fetch_news_def)

lemma fetch_news_miss:
  assumes "force \<or> \<not> cache_fresh s c now"
    and "fetch_news parse now s c force = (items, s', urls)"
  shows "s' = s\<lparr> news_cache := (news_cache s)(c \<mapsto> items),
                 last_fetch := (last_fetch s)(c \<mapsto> now) \<rparr>"
    and "items = concat (map (fetch_source parse) (sources_for s c))"
    and "urls = sources_for s c"
  using assms by (auto simp: fetch_news_def Let_def)

lemma reachable_dom: "reachable s \<Longrightarrow> dom (last_fetch s) = dom (news_cache s)"
proof (induction rule: reachable.induct)
  case init
  show ?case by (simp add: init_agent_def)
next
  case (step s parse now category force_refresh items s' urls)
  show ?case
  proof (cases "cache_fresh s category now \<and> \<not> force_refresh")
    case True
    with step.hyps(2) have "s' = s" by (simp add: fetch_news_def)
    with step.IH show ?thesis by simp
  next
    case False
    then have "force_refresh \<or> \<not> cache_fresh s category now" by blast
    from fetch_news_miss(1) [OF this step.hyps(2)]
    have "news_cache s' = (news_cache s)(category \<mapsto> items)"
      and "last_fetch s' = (last_fetch s)(category \<mapsto> now)"
      by simp_all
    then have "dom (news_cache s') = insert category (dom (news_cache s))"
      and "dom (last_fetch s') = insert category (dom (last_fetch s))"
      by (simp_all only: dom_fun_upd option.simps if_False)
    with step.IH show ?thesis by simp
  qed
qed

text \<open>
  C3. After a call of fetch\_news that fetched the feeds of a category (the cache was not
  fresh, or a refresh was forced) at time \<open>t0\<close>, a call without force\_refresh at a time
  \<open>t1\<close> with \<open>t1 - t0\<close> below one hour returns the items of that fetch, parses no feed,
  and leaves the agent as it was. The same holds in any later state that still has the
  entry and the fetch time of that category, whatever was fetched for other categories.
\<close>

theorem fetch_news_within_hour:
  assumes "fetch_news parse t0 s category force = (items, s1, urls)"
    and "force \<or> \<not> cache_fresh s category t0"
    and "t1 - t0 < hour"
  shows "fetch_news parse' t1 s1 category False = (items, s1, [])
       \<and> news_cache s1 category = Some items \<and> last_fetch s1 category = Some t0
       \<and> (news_cache s2 category = Some items \<and> last_fetch s2 category = Some t0 \<longrightarrow>
            fetch_news parse' t1 s2 category False = (items, s2, []))"
proof -
  have s1: "s1 = s\<lparr> news_cache := (news_cache s)(category \<mapsto> items),
                     last_fetch := (last_fetch s)(category \<mapsto> t0) \<rparr>"
    using assms(2) assms(1) by (rule fetch_news_miss(1))
  have "cache_fresh s1 category t1"
    using assms(3) by (simp add: s1 cache_fresh_def)
  from fetch_news_hit [OF this, of parse']
  have a: "fetch_news parse' t1 s1 category False = (items, s1, [])"
    by (simp add: s1)
  have b: "news_cache s2 category = Some items \<and> last_fetch s2 category = Some t0 \<longrightarrow>
      fetch_news parse' t1 s2 category False = (items, s2, [])"
  proof
    assume h: "news_cache s2 category = Some items \<and> last_fetch s2 category = Some t0"
    then have "cache_fresh s2 category t1"
      using assms(3) by (simp add: cache_fresh_def)
    from fetch_news_hit [OF this, of parse'] h show
      "fetch_news parse' t1 s2 category False = (items, s2, [])"
      by simp
  qed
  from a b show ?thesis by (simp add: s1)
qed

theorem fetch_news_within_hour_witness:
  "fetch_news
     (\<lambda>u. Inr \<lparr> feed_title = Some ''Science'',
                 entries = [\<lparr> entry_title = Some ''Comet'', entry_link = Some ''http://a.test/1'',
                              entry_published = None, entry_summary = None \<rparr>] \<rparr>)
     0 init_agent ''science'' False
   = ([\<lparr> item_title = ''Comet'', item_link = ''http://a.test/1'',
          item_published = ''Unknown date'', item_source = ''Science'',
          item_summary = ''No summary available'' \<rparr>],
      init_agent\<lparr> news_cache := [''science'' \<mapsto>
                     [\<lparr> item_title = ''Comet'', item_link = ''http://a.test/1'',
                        item_published = ''Unknown date'', item_source = ''Science'',
                        item_summary = ''No summary available'' \<rparr>]],
                   last_fetch := [''science'' \<mapsto> 0] \<rparr>,
      [''https://www.science.org/rss/news_feeds/toc_science.xml''])
   \<and> fetch_news (\<lambda>u. Inl RequestException) (hour - 1)
       (init_agent\<lparr> news_cache := [''science'' \<mapsto>
                     [\<lparr> item_title = ''Comet'', item_link = ''http://a.test/1'',
                        item_published = ''Unknown date'', item_source = ''Science'',
                        item_summary = ''No summary available'' \<rparr>]],
                   last_fetch := [''science'' \<mapsto> 0] \<rparr>)
       ''science'' False
   = ([\<lparr> item_title = ''Comet'', item_link = ''http://a.test/1'',
          item_published = ''Unknown date'', item_source = ''Science'',
          item_summary = ''No summary available'' \<rparr>],
      init_agent\<lparr> news_cache := [''science'' \<mapsto>
                     [\<lparr> item_title = ''Comet'', item_link = ''http://a.test/1'',
                        item_published = ''Unknown date'', item_source = ''Science'',
                        item_summary = ''No summary available'' \<rparr>]],
                   last_fetch := [''science'' \<mapsto> 0] \<rparr>,
      [])"
proof -
  let ?parse = "\<lambda>u :: string. (Inr \<lparr> feed_title = Some ''Science'',
                 entries = [\<lparr> entry_title = Some ''Comet'', entry_link = Some ''http://a.test/1'',
                              entry_published = None, entry_summary = None \<rparr>] \<rparr>
                 :: py_error + feed)"
  have nf: "False \<or> \<not> cache_fresh init_agent ''science'' 0"
    by (simp add: cache_fresh_def init_agent_def)
  have first: "fetch_news ?parse 0 init_agent ''science'' False
     = ([\<lparr> item_title = ''Comet'', item_link = ''http://a.test/1'',
          item_published = ''Unknown date'', item_source = ''Science'',
          item_summary = ''No summary available'' \<rparr>],
      init_agent\<lparr> news_cache := [''science'' \<mapsto>
                     [\<lparr> item_title = ''Comet'', item_link = ''http://a.test/1'',
                        item_published = ''Unknown date'', item_source = ''Science'',
                        item_summary = ''No summary available'' \<rparr>]],
                   last_fetch := [''science'' \<mapsto> 0] \<rparr>,
      [''https://www.science.org/rss/news_feeds/toc_science.xml''])"
    by (simp add: fetch_news_def cache_fresh_def init_agent_def sources_for_def
        fetch_source_def make_entry_def Let_def)
  have lt: "(hour - 1) - 0 < hour"
    by simp
  from fetch_news_within_hour [OF first nf lt, of "\<lambda>u. Inl RequestException"] first
  show ?thesis by simp
qed

text \<open>
  C10. In every state the agent can reach, each category with a fetch time has a cache
  entry. A call of fetch\_news either leaves both dictionaries as they are and returns
  the stored list of the category, or replaces the cache entry and the fetch time of
  that category in the same step, with the returned list and the time of the call. In
  both cases the value returned is a list: the default of \<open>news_cache.get\<close> is not
  needed in a reachable state.
\<close>

theorem cache_entries_set_together:
  assumes "reachable s"
  shows "dom (last_fetch s) \<subseteq> dom (news_cache s)
       \<and> (\<exists>items s' urls. fetch_news parse now s c force = (items, s', urls)
            \<and> (s' = s \<and> urls = [] \<and> news_cache s c = Some items
               \<or> s' = s\<lparr> news_cache := (news_cache s)(c \<mapsto> items),
                           last_fetch := (last_fetch s)(c \<mapsto> now) \<rparr>)
            \<and> reachable s')"
proof -
  have d: "dom (last_fetch s) = dom (news_cache s)"
    using assms by (rule reachable_dom)
  obtain items s' urls where f: "fetch_news parse now s c force = (items, s', urls)"
    by (cases "fetch_news parse now s c force") blast
  have r: "reachable s'"
    using assms f by (rule reachable.step)
  have "s' = s \<and> urls = [] \<and> news_cache s c = Some items
      \<or> s' = s\<lparr> news_cache := (news_cache s)(c \<mapsto> items),
                  last_fetch := (last_fetch s)(c \<mapsto> now) \<rparr>"
  proof (cases "cache_fresh s c now \<and> \<not> force")
    case True
    then have "c \<in> dom (last_fetch s)"
      by (auto simp: cache_fresh_def split: option.splits)
    with d obtain xs where xs: "news_cache s c = Some xs"
      by auto
    from True f xs show ?thesis
      by (simp add: fetch_news_def)
  next
    case False
    then have "force \<or> \<not> cache_fresh s c now" by blast
    from fetch_news_miss(1) [OF this f] show ?thesis by simp
  qed
  with d f r show ?thesis by simp
qed

theorem cache_entries_set_together_witness:
  "dom (last_fetch (fst (snd (fetch_news (\<lambda>u. Inl RequestException) 7 init_agent ''sports'' True))))
     \<subseteq> dom (news_cache (fst (snd (fetch_news (\<lambda>u. Inl RequestException) 7 init_agent ''sports'' True))))
   \<and> last_fetch (fst (snd (fetch_news (\<lambda>u. Inl RequestException) 7 init_agent ''sports'' True)))
       ''sports'' = Some 7
   \<and> news_cache (fst (snd (fetch_news (\<lambda>u. Inl RequestException) 7 init_agent ''sports'' True)))
       ''sports'' = Some []"
proof -
  let ?r = "fetch_news (\<lambda>u. Inl RequestException) 7 init_agent ''sports'' True"
  have "fetch_news (\<lambda>u. Inl RequestException) 7 init_agent ''sports'' True
      = (fst ?r, fst (snd ?r), snd (snd ?r))"
    by simp
  with reachable.init have r: "reachable (fst (snd ?r))"
    by (rule reachable.step)
  have v: "last_fetch (fst (snd ?r)) ''sports'' = Some 7"
      "news_cache (fst (snd ?r)) ''sports'' = Some []"
    by (simp_all add: fetch_news_def sources_for_def init_agent_def fetch_source_def Let_def)
  from cache_entries_set_together [OF r] v show ?thesis by simp
qed

section \<open>Properties of get\_news\_urls\<close>

lemma unique_loop_distinct:
  assumes "distinct u" and "seen = set u" and "length u < 5"
  shows "distinct (unique_loop u seen links) \<and> length (unique_loop u seen links) \<le> 5"
  using assms
proof (induction links arbitrary: u seen)
  case Nil
  then show ?case by simp
next
  case (Cons link rest)
  show ?case
  proof (cases "link \<in> seen")
    case True
    with Cons show ?thesis by simp
  next
    case False
    show ?thesis
    proof (cases "length (u @ [link]) \<ge> 5")
      case True
      with False Cons.prems show ?thesis by simp
    next
      case short: False
      have "distinct (unique_loop (u @ [link]) (insert link seen) rest)
          \<and> length (unique_loop (u @ [link]) (insert link seen) rest) \<le> 5"
        using False short Cons.prems by (intro Cons.IH) auto
      with False short show ?thesis by simp
    qed
  qed
qed

lemma primary_links_distinct:
  assumes "primary_links w = Inr urls"
  shows "distinct urls \<and> length urls \<le> 5"
proof -
  have "\<And>links. distinct (unique_loop [] {} links) \<and> length (unique_loop [] {} links) \<le> 5"
    by (rule unique_loop_distinct) simp_all
  with assms show ?thesis
    by (auto simp: primary_links_def Let_def split: sum.splits if_splits)
qed

lemma read_sources_unbound: "read_sources bound = Inl (NameError ''sources'')"
  by (simp add: read_sources_def module_names_def)

lemma primary_links_search: "primary_links (w\<lparr>google_search := g\<rparr>) = primary_links w"
  by (simp add: primary_links_def Let_def split: sum.splits)

lemma get_news_urls_backup:
  assumes "primary_links w = Inl e"
  shows "get_news_urls w query =
    (case google_rss w of Inl x \<Rightarrow> [] | Inr items \<Rightarrow> rss_links (take 5 items))"
  using assms
  by (simp add: get_news_urls_def get_news_urls_in_def backup_links_def read_sources_unbound
      Let_def split: sum.splits)

lemma rss_links_length: "length (rss_links items) \<le> length items"
proof -
  have "length (concat (map (\<lambda>item. case item of None \<Rightarrow> [] | Some t \<Rightarrow> [t]) items))
      \<le> length items"
    by (induction items) (auto split: option.splits)
  moreover have "length (rss_links items)
      \<le> length (concat (map (\<lambda>item. case item of None \<Rightarrow> [] | Some t \<Rightarrow> [t]) items))"
    unfolding rss_links_def
    by (rule order_trans [OF length_filter_le]) simp
  ultimately show ?thesis by simp
qed

lemma get_news_urls_at_most_5: "length (get_news_urls w query) \<le> 5"
proof (cases "primary_links w")
  case (Inr urls)
  with primary_links_distinct [OF Inr] show ?thesis
    by (simp add: get_news_urls_def get_news_urls_in_def)
next
  case (Inl e)
  show ?thesis
  proof (cases "google_rss w")
    case failed: (Inl x)
    with get_news_urls_backup [OF Inl, of query] show ?thesis by simp
  next
    case (Inr items)
    have "length (rss_links (take 5 items)) \<le> length (take 5 items)"
      by (rule rss_links_length)
    with Inr get_news_urls_backup [OF Inl, of query] show ?thesis by simp
  qed
qed

text \<open>
  C9. When the primary block raises, get\_news\_urls returns the valid links of the first
  5 RSS items, and nothing when the RSS request fails; so it returns the empty list when
  the RSS query gives no valid link. The branch that uses suggested sources ends in the
  NameError of the unbound name \<open>sources\<close>, which the handler of line 172 catches:
  the result does not depend on any response of the source-based search.
\<close>

theorem get_news_urls_sources_unbound:
  assumes "primary_links w = Inl e"
  shows "get_news_urls w query =
           (case google_rss w of Inl x \<Rightarrow> [] | Inr items \<Rightarrow> rss_links (take 5 items))
       \<and> ((case google_rss w of Inl x \<Rightarrow> True | Inr items \<Rightarrow> rss_links (take 5 items) = [])
            \<longrightarrow> get_news_urls w query = [])
       \<and> get_news_urls (w\<lparr>google_search := g\<rparr>) query = get_news_urls w query"
proof -
  have a: "get_news_urls w query =
      (case google_rss w of Inl x \<Rightarrow> [] | Inr items \<Rightarrow> rss_links (take 5 items))"
    using assms by (rule get_news_urls_backup)
  have "primary_links (w\<lparr>google_search := g\<rparr>) = Inl e"
    using assms by (simp add: primary_links_search)
  from get_news_urls_backup [OF this, of query]
  have b: "get_news_urls (w\<lparr>google_search := g\<rparr>) query =
      (case google_rss w of Inl x \<Rightarrow> [] | Inr items \<Rightarrow> rss_links (take 5 items))"
    by simp
  from a b show ?thesis
    by (auto split: sum.splits)
qed

theorem get_news_urls_sources_unbound_witness:
  "get_news_urls
     \<lparr> google_news = Inl RequestException, bing_news = Inr [],
       google_rss = Inr [None, Some ''ftp://a.test/feed''],
       google_search = (\<lambda>term. if term = ''reuters ai news''
                                 then Inr [''/url?q=https://r.test/a&sa=U''] else Inr []) \<rparr>
     ''ai'' = []
   \<and> get_news_urls_in (Inr [''1. **Reuters**''])
     \<lparr> google_news = Inl RequestException, bing_news = Inr [],
       google_rss = Inr [None, Some ''ftp://a.test/feed''],
       google_search = (\<lambda>term. if term = ''reuters ai news''
                                 then Inr [''/url?q=https://r.test/a&sa=U''] else Inr []) \<rparr>
     ''ai'' = [''https://r.test/a'']"
proof -
  let ?w = "\<lparr> google_news = Inl RequestException, bing_news = Inr [],
       google_rss = Inr [None, Some ''ftp://a.test/feed''],
       google_search = (\<lambda>term. if term = ''reuters ai news''
                                 then Inr [''/url?q=https://r.test/a&sa=U''] else Inr []) \<rparr>"
  have p: "primary_links ?w = Inl RequestException"
    by (simp add: primary_links_def)
  have r: "rss_links [None, Some ''ftp://a.test/feed''] = []"
    by (simp add: rss_links_def is_http_def strip_def isspace_def)
  have b: "get_news_urls_in (Inr [''1. **Reuters**'']) ?w ''ai'' = [''https://r.test/a'']"
    by (simp add: get_news_urls_in_def p backup_links_def r split_ws_def isspace_def
        lower_def lower_char_def isupper_def strip_chars_def split_def is_http_def Let_def)
  from get_news_urls_sources_unbound [OF p, of "''ai''"] r b show ?thesis
    by simp
qed

text \<open>
  C2, evaluated on the backup path: with the Google News request failing and an RSS
  document whose first two items carry the same link, the returned list holds that URL
  twice. On the primary path (lemma \<open>primary_links_distinct\<close>) the list has no
  duplicate, and on every path it has at most 5 URLs (lemma \<open>get_news_urls_at_most_5\<close>).
\<close>

theorem get_news_urls_rss_duplicate:
  "get_news_urls
     \<lparr> google_news = Inl RequestException, bing_news = Inr [],
       google_rss = Inr [Some ''https://a.test/1'', Some ''https://a.test/1''],
       google_search = (\<lambda>term. Inr []) \<rparr>
     ''ai'' = [''https://a.test/1'', ''https://a.test/1'']"
  by (simp add: get_news_urls_def get_news_urls_in_def primary_links_def backup_links_def
      rss_links_def is_http_def strip_def isspace_def)

section \<open>Properties of scrape\_article\<close>

lemma find_SomeD: "List.find P xs = Some x \<Longrightarrow> P x \<and> x \<in> set xs"
  by (induction xs) (auto split: if_splits)

lemma ex_greatest:
  assumes "x \<in> set ds"
  shows "\<exists>y \<in> set ds. (\<forall>d' \<in> set ds. (f d' :: nat) \<le> f y)"
proof -
  have "finite (f ` set ds)" "f ` set ds \<noteq> {}" using assms by auto
  then have "Max (f ` set ds) \<in> f ` set ds" by (rule Max_in)
  then obtain y where y: "y \<in> set ds" "f y = Max (f ` set ds)" by auto
  have "\<forall>d' \<in> set ds. f d' \<le> f y"
    using y by (simp add: Max_ge)
  with y show ?thesis by blast
qed

lemma div_loop_find:
  "div_loop ds c m =
     (case List.find (greatest_above m ds) ds of
        None \<Rightarrow> (c, m) | Some d \<Rightarrow> (Some d, p_count d))"
proof (induction ds arbitrary: c m)
  case Nil
  show ?case by simp
next
  case (Cons d ds)
  show ?case
  proof (cases "m < p_count d")
    case False
    have "List.find (greatest_above m (d # ds)) ds = List.find (greatest_above m ds) ds"
      using False by (intro find_cong) (auto simp: greatest_above_def)
    moreover have "\<not> greatest_above m (d # ds) d"
      using False by (simp add: greatest_above_def)
    moreover have "div_loop (d # ds) c m = div_loop ds c m"
      using False by (simp add: p_count_def)
    ultimately show ?thesis
      using Cons.IH [of c m] by simp
  next
    case True
    then have step: "div_loop (d # ds) c m = div_loop ds (Some d) (p_count d)"
      by (simp add: p_count_def)
    show ?thesis
    proof (cases "\<forall>d' \<in> set ds. p_count d' \<le> p_count d")
      case all: True
      then have "List.find (greatest_above (p_count d) ds) ds = None"
        by (auto simp: find_None_iff greatest_above_def)
      moreover have "greatest_above m (d # ds) d"
        using True all by (simp add: greatest_above_def)
      ultimately show ?thesis
        using step Cons.IH [of "Some d" "p_count d"] by simp
    next
      case False
      then obtain z where z: "z \<in> set ds" "p_count d < p_count z" by force
      from ex_greatest [OF z(1), of p_count]
      obtain y where y: "y \<in> set ds" "\<forall>d' \<in> set ds. p_count d' \<le> p_count y" by blast
      with z have "p_count d < p_count y" by force
      with y have "List.find (greatest_above (p_count d) ds) ds \<noteq> None"
        by (auto simp: find_None_iff greatest_above_def)
      then obtain w where w: "List.find (greatest_above (p_count d) ds) ds = Some w"
        by blast
      have "List.find (greatest_above m (d # ds)) ds = List.find (greatest_above (p_count d) ds) ds"
        using True z by (intro find_cong) (force simp: greatest_above_def)+
      moreover have "\<not> greatest_above m (d # ds) d"
        using False by (simp add: greatest_above_def)
      ultimately show ?thesis
        using step w Cons.IH [of "Some d" "p_count d"] by simp
    qed
  qed
qed

lemma div_loop_most_paragraphs:
  "(case div_loop ds None 0 of (candidate, max_p_count) \<Rightarrow>
      if max_p_count \<ge> 3 then candidate else None) = most_paragraphs p_count ds"
proof (cases "\<exists>x \<in> set ds. 3 \<le> p_count x")
  case True
  then obtain z where z: "z \<in> set ds" "3 \<le> p_count z" by blast
  have eq: "List.find (greatest_above 0 ds) ds = most_paragraphs p_count ds"
    unfolding most_paragraphs_def
    using z by (intro find_cong) (force simp: greatest_above_def list_all_iff)+
  show ?thesis
  proof (cases "most_paragraphs p_count ds")
    case None
    with eq show ?thesis by (simp add: div_loop_find)
  next
    case (Some d)
    then have "3 \<le> p_count d"
      unfolding most_paragraphs_def by (auto dest: find_SomeD)
    with Some eq show ?thesis by (simp add: div_loop_find)
  qed
next
  case False
  then have none: "most_paragraphs p_count ds = None"
    by (auto simp: most_paragraphs_def find_None_iff)
  show ?thesis
  proof (cases "List.find (greatest_above 0 ds) ds")
    case None
    with none show ?thesis by (simp add: div_loop_find)
  next
    case (Some d)
    then have "d \<in> set ds" by (auto dest: find_SomeD)
    with False have "\<not> 3 \<le> p_count d" by blast
    with Some none show ?thesis by (simp add: div_loop_find)
  qed
qed


lemma first_with_text_Nil: "first_with_text [] = None"
  by (simp add: first_with_text_def)

lemma first_with_text_Cons:
  "first_with_text (c # cs) = (if has_text c then c else first_with_text cs)"
  by (simp add: first_with_text_def)

lemma first_with_text_append:
  "first_with_text (xs @ ys) =
     (if has_text (first_with_text xs) then first_with_text xs else first_with_text ys)"
  by (induction xs) (simp_all add: first_with_text_Cons first_with_text_Nil has_text_def)

lemma class_loop_first:
  assumes "\<not> has_text article"
  shows "(if has_text (class_loop sp hints article) then class_loop sp hints article else None)
       = first_with_text (map (\<lambda>class_hint. find_first (class_hint_test class_hint) sp) hints)"
  using assms
proof (induction hints arbitrary: article)
  case Nil
  then show ?case by (simp add: first_with_text_Nil)
next
  case (Cons h hints)
  show ?case
  proof (cases "has_text (find_first (class_hint_test h) sp)")
    case True
    then show ?thesis by (simp add: first_with_text_Cons)
  next
    case False
    with Cons.IH [OF False] show ?thesis
      by (auto simp: first_with_text_Cons split: if_splits)
  qed
qed

lemma chosen_container_first: "chosen_container sp = first_with_text (candidates_in_order sp)"
proof -
  define a0 where "a0 = find_first testid_hint sp"
  define a1 where "a1 = (if \<not> has_text a0 then find_first (tag_is ''article'') sp else a0)"
  define a2 where "a2 = (if \<not> has_text a1 then class_loop sp class_hints a1 else a1)"
  define a3 where "a3 = (if \<not> has_text a2 then find_first (tag_is ''main'') sp else a2)"
  define F where "F = first_with_text (map (\<lambda>class_hint. find_first (class_hint_test class_hint) sp) class_hints)"
  define D where "D = most_paragraphs p_count (find_all (tag_is ''div'') sp)"
  obtain c m where cm: "div_loop (find_all (tag_is ''div'') sp) None 0 = (c, m)"
    by (cases "div_loop (find_all (tag_is ''div'') sp) None 0") blast
  have D: "D = (if m \<ge> 3 then c else None)"
    using div_loop_most_paragraphs [of "find_all (tag_is ''div'') sp"] cm by (simp add: D_def)
  have sel: "select_container sp = (if \<not> has_text a3 then (if m \<ge> 3 then c else a3) else a3)"
    by (simp add: select_container_def Let_def a0_def a1_def a2_def a3_def cm)
  have rhs: "first_with_text (candidates_in_order sp) =
      (if has_text a0 then a0
       else if has_text (find_first (tag_is ''article'') sp) then find_first (tag_is ''article'') sp
       else if has_text F then F
       else if has_text (find_first (tag_is ''main'') sp) then find_first (tag_is ''main'') sp
       else if has_text D then D else None)"
    by (simp add: candidates_in_order_def first_with_text_Cons first_with_text_append
        first_with_text_Nil a0_def F_def D_def)
  show ?thesis
  proof (cases "has_text a1")
    case True
    then have "a2 = a1" "a3 = a1" by (simp_all add: a2_def a3_def)
    with True show ?thesis
      by (auto simp: chosen_container_def sel rhs a1_def split: if_splits)
  next
    case False
    then have n0: "\<not> has_text a0" and n1: "\<not> has_text (find_first (tag_is ''article'') sp)"
      by (auto simp: a1_def split: if_splits)
    have a2: "a2 = class_loop sp class_hints a1"
      using False by (simp add: a2_def)
    have F: "(if has_text a2 then a2 else None) = F"
      unfolding a2 F_def using False by (rule class_loop_first)
    show ?thesis
    proof (cases "has_text a2")
      case True
      with F have "F = a2" by simp
      with True n0 n1 show ?thesis
        by (simp add: chosen_container_def sel rhs a3_def)
    next
      case n2: False
      with F have "F = None" by simp
      then have nF: "\<not> has_text F" by (simp add: has_text_def)
      have a3: "a3 = find_first (tag_is ''main'') sp"
        using n2 by (simp add: a3_def)
      show ?thesis
        using n0 n1 nF
        by (auto simp: chosen_container_def sel rhs a3 D has_text_def split: if_splits)
    qed
  qed
qed

lemma order_doc_containers:
  "chosen_container order_doc =
     Some (Elem ''div'' [(''data-testid'', ''article-body'')]
             [Elem ''p'' [] [Text ''Text of the test-id element.'']])
   \<and> first_with_text (claimed_candidates order_doc) =
     Some (Elem ''article'' [] [Elem ''p'' [] [Text ''Text of the article element.'']])"
proof -
  have t: "find_first testid_hint order_doc =
      Some (Elem ''div'' [(''data-testid'', ''article-body'')]
              [Elem ''p'' [] [Text ''Text of the test-id element.'']])"
    by (simp add: order_doc_def find_first_def find_all_def testid_hint_def attr_test_def
        lower_def lower_char_def isupper_def)
  have a: "find_first (tag_is ''article'') order_doc =
      Some (Elem ''article'' [] [Elem ''p'' [] [Text ''Text of the article element.'']])"
    by (simp add: order_doc_def find_first_def find_all_def)
  have ht: "has_text (Some (Elem ''div'' [(''data-testid'', ''article-body'')]
              [Elem ''p'' [] [Text ''Text of the test-id element.'']]))"
    by (simp add: has_text_def strip_def isspace_def)
  have ha: "has_text (Some (Elem ''article'' [] [Elem ''p'' [] [Text ''Text of the article element.'']]))"
    by (simp add: has_text_def strip_def isspace_def)
  have c: "chosen_container order_doc =
      Some (Elem ''div'' [(''data-testid'', ''article-body'')]
              [Elem ''p'' [] [Text ''Text of the test-id element.'']])"
    by (simp add: chosen_container_def select_container_def t ht Let_def)
  have f: "first_with_text (claimed_candidates order_doc) =
      Some (Elem ''article'' [] [Elem ''p'' [] [Text ''Text of the article element.'']])"
    by (simp add: claimed_candidates_def first_with_text_Cons a ha)
  from c f show ?thesis by simp
qed

lemma nested_doc_containers:
  "chosen_container nested_doc =
     Some (Elem ''div'' []
        [Elem ''section'' []
           [Elem ''p'' [] [Text ''One.''], Elem ''p'' [] [Text ''Two.''], Elem ''p'' [] [Text ''Three.'']]])
   \<and> first_with_text (claimed_candidates nested_doc) = None"
proof -
  let ?div = "Elem ''div'' []
        [Elem ''section'' []
           [Elem ''p'' [] [Text ''One.''], Elem ''p'' [] [Text ''Two.''], Elem ''p'' [] [Text ''Three.'']]]"
  have t: "find_first testid_hint nested_doc = None"
    by (simp add: nested_doc_def find_first_def find_all_def testid_hint_def attr_test_def)
  have a: "find_first (tag_is ''article'') nested_doc = None"
    by (simp add: nested_doc_def find_first_def find_all_def)
  have m: "find_first (tag_is ''main'') nested_doc = None"
    by (simp add: nested_doc_def find_first_def find_all_def)
  have h: "\<And>class_hint. find_first (class_hint_test class_hint) nested_doc = None"
    by (simp add: nested_doc_def find_first_def find_all_def class_hint_test_def class_test_def)
  have l: "class_loop nested_doc class_hints None = None"
    by (simp add: class_hints_def h has_text_def)
  have d: "find_all (tag_is ''div'') nested_doc = [?div]"
    by (simp add: nested_doc_def find_all_def)
  have pc: "find_all (tag_is ''p'') (children ?div) =
      [Elem ''p'' [] [Text ''One.''], Elem ''p'' [] [Text ''Two.''], Elem ''p'' [] [Text ''Three.'']]"
    by (simp add: find_all_def)
  have dl: "div_loop [?div] None 0 = (Some ?div, 3)"
    by (simp add: pc del: children.simps)
  have hd: "has_text (Some ?div)"
    by (simp add: has_text_def strip_def isspace_def)
  have n: "\<not> has_text None"
    by (simp add: has_text_def)
  have c: "chosen_container nested_doc = Some ?div"
    by (simp add: chosen_container_def select_container_def t a m l d dl hd n Let_def
        del: div_loop.simps)
  have mp: "most_paragraphs p_children [?div] = None"
    by (simp add: most_paragraphs_def p_children_def)
  have f: "first_with_text (claimed_candidates nested_doc) = None"
    by (simp add: claimed_candidates_def first_with_text_Cons first_with_text_append
        first_with_text_Nil t a m h d mp n class_hints_def)
  from c f show ?thesis by simp
qed


lemma strip_no_space:
  assumes "\<forall>c \<in> set s. \<not> isspace c"
  shows "strip s = s"
proof -
  have a: "dropWhile isspace s = s"
    using assms by (cases s) auto
  have b: "dropWhile isspace (rev s) = rev s"
    using assms by (cases "rev s") (auto simp: dropWhile_eq_Cons_conv dest: arg_cong[where f=set])
  show ?thesis by (simp add: strip_def a b)
qed

text \<open>
  C1, evaluated on a page whose title has 5001 characters and whose body has no text:
  the title is returned whole by line 333, so the result is longer than 5000 characters.
\<close>

theorem scrape_article_long_title:
  "scrape_article
     (Inr \<lparr> status_code = 200, json_ld = NoScript,
            soup = [Elem ''html'' []
                      [Elem ''head'' [] [Elem ''title'' [] [Text (replicate 5001 CHR ''a'')]],
                       Elem ''body'' [] []]] \<rparr>)
     ''http://a.test/story''
   = PyStr (replicate 5001 CHR ''a'')
   \<and> length (replicate 5001 CHR ''a'') = 5001"
proof -
  have s: "strip (replicate 5001 CHR ''a'') = replicate 5001 CHR ''a''"
    by (rule strip_no_space) (simp add: isspace_def)
  have ne: "replicate 5001 CHR ''a'' \<noteq> []"
    by simp
  have t: "page_title [Elem ''html'' []
                      [Elem ''head'' [] [Elem ''title'' [] [Text (replicate 5001 CHR ''a'')]],
                       Elem ''body'' [] []]] = replicate 5001 CHR ''a''"
    by (simp add: page_title_def find_first_def find_all_def s)
  have m: "page_meta_desc [Elem ''html'' []
                      [Elem ''head'' [] [Elem ''title'' [] [Text (replicate 5001 CHR ''a'')]],
                       Elem ''body'' [] []]] = []"
    by (simp add: page_meta_desc_def find_first_def find_all_def)
  have r: "remove_unwanted [Elem ''html'' []
                      [Elem ''head'' [] [Elem ''title'' [] [Text (replicate 5001 CHR ''a'')]],
                       Elem ''body'' [] []]] = [Elem ''html'' []
                      [Elem ''head'' [] [Elem ''title'' [] [Text (replicate 5001 CHR ''a'')]],
                       Elem ''body'' [] []]]"
    by (simp add: remove_unwanted_def)
  have c: "select_container [Elem ''html'' []
                      [Elem ''head'' [] [Elem ''title'' [] [Text (replicate 5001 CHR ''a'')]],
                       Elem ''body'' [] []]] = None"
    by (simp add: select_container_def find_first_def find_all_def testid_hint_def attr_test_def
        has_text_def class_hints_def class_hint_test_def class_test_def)
  have a: "article_text [Elem ''html'' []
                      [Elem ''head'' [] [Elem ''title'' [] [Text (replicate 5001 CHR ''a'')]],
                       Elem ''body'' [] []]] = []"
    by (simp add: article_text_def c container_text_def find_all_def split_ws_def)
  show ?thesis
    using ne by (simp add: scrape_article_def site_override_def generic_extract_def t m r a)
qed

text \<open>
  C4, as the code has it. The container used for extraction is the first candidate that
  exists and has text, in this order: the first element whose test-id contains "article",
  the first article element, for each class hint of the fixed list in turn the first
  element with a class name containing it, the first main element, and the first div
  with the greatest number of paragraphs below it, if that number is at least 3.
\<close>

theorem select_container_order:
  "chosen_container sp = first_with_text (candidates_in_order sp)
   \<and> container_text (select_container sp) = container_text (chosen_container sp)"
proof -
  have "container_text (select_container sp) = container_text (chosen_container sp)"
    by (cases "select_container sp")
      (simp_all add: chosen_container_def container_text_def has_text_def Let_def)
  with chosen_container_first [of sp] show ?thesis by simp
qed

theorem select_container_order_witness:
  "first_with_text (candidates_in_order order_doc) =
     Some (Elem ''div'' [(''data-testid'', ''article-body'')]
             [Elem ''p'' [] [Text ''Text of the test-id element.'']])"
  using select_container_order [of order_doc] order_doc_containers by simp

theorem select_container_order_counterexample:
  "chosen_container order_doc \<noteq> first_with_text (claimed_candidates order_doc)
   \<and> chosen_container nested_doc \<noteq> first_with_text (claimed_candidates nested_doc)"
  using order_doc_containers nested_doc_containers by simp




end
